theory Spec2Isabelle
  imports Main "HOL-Library.Char_ord" "HOL-Library.List_Lexorder" "HOL-Library.Multiset"
begin

unbundle bit_operations_syntax

section \<open>Python values, dictionaries and errors\<close>

text \<open>
  Transactions and block headers are Python dictionaries from field names to values.
  The values the engine meets are integers and strings; \<open>PNone\<close> stands for a value
  that is neither (Python's \<open>None\<close>). Python integers are unbounded, hence \<open>int\<close>.
  Strings are lists of characters with code points below 256.
  A dictionary is an association list in insertion order; its keys are distinct.
\<close>

datatype pyval = PInt int | PStr string | PNone

type_synonym pydict = "(string \<times> pyval) list"

text \<open>
  The exceptions of the code: \<open>KeyError\<close> for \<open>d[k]\<close> on a missing key, \<open>TypeError\<close>
  for an operator applied to values it does not support, \<open>IndexError\<close> for a list index
  out of range, \<open>InvalidIndex\<close> for \<open>ValueError("Invalid transaction index")\<close>, and
  \<open>ValueError\<close> for the one that \<open>str\<close> raises on an integer with too many digits.
\<close>

datatype error = KeyError | TypeError | IndexError | InvalidIndex | ValueError

text \<open>\<open>d[k]\<close>\<close>

definition dict_get :: "pydict \<Rightarrow> string \<Rightarrow> error + pyval" where
  "dict_get d k = (case map_of d k of None \<Rightarrow> Inl KeyError | Some v \<Rightarrow> Inr v)"

text \<open>\<open>d[k] = v\<close>: an existing key keeps its place, a new key goes to the end.\<close>

fun dict_set :: "pydict \<Rightarrow> string \<Rightarrow> pyval \<Rightarrow> pydict" where
  "dict_set [] k v = [(k, v)]"
| "dict_set ((k', v') # d) k v = (if k' = k then (k, v) # d else (k', v') # dict_set d k v)"

text \<open>
  \<open>str(n)\<close> for an integer: decimal digits, a minus sign for a negative number.
  CPython limits the conversion: with the default setting, which the code leaves
  alone, \<open>str\<close> raises \<open>ValueError\<close> when the integer has more than 4300 digits, the
  sign not counted.
\<close>

definition INT_MAX_STR_DIGITS :: int where
  "INT_MAX_STR_DIGITS = 4300"

definition decimal_digit :: "int \<Rightarrow> char" where
  "decimal_digit n = ''0123456789'' ! nat n"

function str_digits :: "int \<Rightarrow> string" where
  "str_digits n =
     (if n < 10 then [decimal_digit n]
      else str_digits (n div 10) @ [decimal_digit (n mod 10)])"
  by pat_completeness auto
termination
  by (relation "measure nat") auto

declare str_digits.simps [simp del]

definition str_int :: "int \<Rightarrow> error + string" where
  "str_int n =
     (let digits = str_digits \<bar>n\<bar>
      in if int (length digits) > INT_MAX_STR_DIGITS then Inl ValueError
         else Inr (if n < 0 then CHR ''-'' # digits else digits))"

text \<open>\<open>str(value)\<close>: a string is returned as it is, \<open>None\<close> gives \<open>"None"\<close>.\<close>

fun py_str :: "pyval \<Rightarrow> error + string" where
  "py_str (PInt n) = str_int n"
| "py_str (PStr s) = Inr s"
| "py_str PNone = Inr ''None''"

text \<open>
  The values that \<open>str\<close> accepts: every string, \<open>None\<close>, and the integers below
  \<open>10 ^ 4300\<close> in absolute value, which are those of at most 4300 digits.
\<close>

fun renderable :: "pyval \<Rightarrow> bool" where
  "renderable (PInt n) = (\<bar>n\<bar> < 10 ^ nat INT_MAX_STR_DIGITS)"
| "renderable (PStr s) = True"
| "renderable PNone = True"

text \<open>\<open>isinstance(value, int)\<close>\<close>

fun isinstance_int :: "pyval \<Rightarrow> bool" where
  "isinstance_int (PInt n) = True"
| "isinstance_int v = False"

text \<open>\<open>','.join(values)\<close>\<close>

fun join_comma :: "string list \<Rightarrow> string" where
  "join_comma [] = []"
| "join_comma [v] = v"
| "join_comma (v # w # vs) = v @ '','' @ join_comma (w # vs)"

text \<open>\<open>s.startswith(prefix)\<close>\<close>

definition startswith :: "string \<Rightarrow> string \<Rightarrow> bool" where
  "startswith s pre = (take (length pre) s = pre)"

section \<open>hashlib.sha256\<close>

text \<open>
  SHA-256 as FIPS 180-4 defines it. A 32-bit word is an \<open>int\<close> in \<open>0 ..< 2 ^ 32\<close>, with
  the wrap-around of the addition written out; a byte is an \<open>int\<close> in \<open>0 ..< 256\<close>.
\<close>

type_synonym u32 = int

definition add32 :: "u32 \<Rightarrow> u32 \<Rightarrow> u32" where
  "add32 a b = take_bit 32 (a + b)"

definition rotr :: "nat \<Rightarrow> u32 \<Rightarrow> u32" where
  "rotr n x = drop_bit n x OR take_bit 32 (push_bit (32 - n) x)"

definition shr :: "nat \<Rightarrow> u32 \<Rightarrow> u32" where
  "shr n x = drop_bit n x"

definition not32 :: "u32 \<Rightarrow> u32" where
  "not32 x = 4294967295 - x"

definition Ch :: "u32 \<Rightarrow> u32 \<Rightarrow> u32 \<Rightarrow> u32" where
  "Ch x y z = (x AND y) XOR (not32 x AND z)"

definition Maj :: "u32 \<Rightarrow> u32 \<Rightarrow> u32 \<Rightarrow> u32" where
  "Maj x y z = (x AND y) XOR (x AND z) XOR (y AND z)"

definition Sigma0 :: "u32 \<Rightarrow> u32" where
  "Sigma0 x = rotr 2 x XOR rotr 13 x XOR rotr 22 x"

definition Sigma1 :: "u32 \<Rightarrow> u32" where
  "Sigma1 x = rotr 6 x XOR rotr 11 x XOR rotr 25 x"

definition sigma0 :: "u32 \<Rightarrow> u32" where
  "sigma0 x = rotr 7 x XOR rotr 18 x XOR shr 3 x"

definition sigma1 :: "u32 \<Rightarrow> u32" where
  "sigma1 x = rotr 17 x XOR rotr 19 x XOR shr 10 x"

text \<open>
  The round constants (the first 32 bits of the fractional parts of the cube roots of
  the first 64 primes) and the initial hash value (of the square roots of the first 8
  primes), in decimal.
\<close>

definition K256 :: "u32 list" where
  "K256 = [
   1116352408, 1899447441, 3049323471, 3921009573, 961987163, 1508970993, 2453635748, 2870763221,
   3624381080, 310598401, 607225278, 1426881987, 1925078388, 2162078206, 2614888103, 3248222580,
   3835390401, 4022224774, 264347078, 604807628, 770255983, 1249150122, 1555081692, 1996064986,
   2554220882, 2821834349, 2952996808, 3210313671, 3336571891, 3584528711, 113926993, 338241895,
   666307205, 773529912, 1294757372, 1396182291, 1695183700, 1986661051, 2177026350, 2456956037,
   2730485921, 2820302411, 3259730800, 3345764771, 3516065817, 3600352804, 4094571909, 275423344,
   430227734, 506948616, 659060556, 883997877, 958139571, 1322822218, 1537002063, 1747873779,
   1955562222, 2024104815, 2227730452, 2361852424, 2428436474, 2756734187, 3204031479, 3329325298]"

definition H256 :: "u32 list" where
  "H256 = [1779033703, 3144134277, 1013904242, 2773480762,
           1359893119, 2600822924, 528734635, 1541459225]"

text \<open>One round on the working variables \<open>a .. h\<close>, with round constant \<open>k\<close> and schedule word \<open>w\<close>.\<close>

fun sha_round :: "u32 \<Rightarrow> u32 \<Rightarrow> u32 list \<Rightarrow> u32 list" where
  "sha_round k w [a, b, c, d, e, f, g, h] =
     (let t1 = add32 (add32 (add32 (add32 h (Sigma1 e)) (Ch e f g)) k) w;
          t2 = add32 (Sigma0 a) (Maj a b c)
      in [add32 t1 t2, a, b, c, add32 d t1, e, f, g])"
| "sha_round k w s = s"

text \<open>
  The message schedule is kept as a window of the last sixteen words: the head is the
  word of the current round, and the next word is computed from the window.
\<close>

definition next_w :: "u32 list \<Rightarrow> u32" where
  "next_w w = add32 (add32 (add32 (sigma1 (w ! 14)) (w ! 9)) (sigma0 (w ! 1))) (w ! 0)"

fun sha_rounds :: "u32 list \<Rightarrow> u32 list \<Rightarrow> u32 list \<Rightarrow> u32 list" where
  "sha_rounds [] w s = s"
| "sha_rounds (k # ks) w s = sha_rounds ks (tl w @ [next_w w]) (sha_round k (hd w) s)"

definition compress :: "u32 list \<Rightarrow> u32 list \<Rightarrow> u32 list" where
  "compress hs w = map2 add32 hs (sha_rounds K256 w hs)"

text \<open>Bytes to big-endian 32-bit words.\<close>

fun be32 :: "int list \<Rightarrow> u32 list" where
  "be32 (a # b # c # d # r) = (((a * 256 + b) * 256 + c) * 256 + d) # be32 r"
| "be32 r = []"

fun sha_blocks :: "u32 list \<Rightarrow> u32 list \<Rightarrow> u32 list" where
  "sha_blocks hs ws =
     (if length ws < 16 then hs else sha_blocks (compress hs (take 16 ws)) (drop 16 ws))"

declare sha_blocks.simps [simp del]

definition be64_bytes :: "int \<Rightarrow> int list" where
  "be64_bytes n = map (\<lambda>i. (n div 256 ^ i) mod 256) [7, 6, 5, 4, 3, 2, 1, 0]"

text \<open>Padding: the byte \<open>0x80\<close>, zeros up to 56 modulo 64, the length in bits on 8 bytes.\<close>

definition sha_pad :: "int list \<Rightarrow> int list" where
  "sha_pad m =
     m @ [128] @ replicate ((119 - length m mod 64) mod 64) 0 @ be64_bytes (8 * int (length m))"

definition sha256_words :: "int list \<Rightarrow> u32 list" where
  "sha256_words m = sha_blocks H256 (be32 (sha_pad m))"

definition hex_digit :: "int \<Rightarrow> char" where
  "hex_digit n = ''0123456789abcdef'' ! nat n"

definition hex32 :: "u32 \<Rightarrow> string" where
  "hex32 x = map (\<lambda>i. hex_digit ((x div 16 ^ i) mod 16)) [7, 6, 5, 4, 3, 2, 1, 0]"

text \<open>\<open>sha256(data).hexdigest()\<close>\<close>

definition sha256_hexdigest :: "int list \<Rightarrow> string" where
  "sha256_hexdigest m = concat (map hex32 (sha256_words m))"

text \<open>\<open>s.encode()\<close>: UTF-8, one byte below U+0080 and two bytes from there to U+00FF.\<close>

definition encode_utf8 :: "string \<Rightarrow> int list" where
  "encode_utf8 s =
     concat (map (\<lambda>c. let n = of_char c
                       in if n < 128 then [n] else [192 + n div 64, 128 + n mod 64]) s)"

section \<open>serialization.py\<close>

text \<open>
  The loop over the sorted keys, common to both serializers: look the key up, render the
  value with \<open>str\<close> in either branch of the \<open>isinstance\<close> test, and go on.
\<close>

fun render_values :: "pydict \<Rightarrow> string list \<Rightarrow> error + string list" where
  "render_values d [] = Inr []"
| "render_values d (key # keys) =
     (case dict_get d key of
        Inl e \<Rightarrow> Inl e
      | Inr v \<Rightarrow>
          (case (if isinstance_int v then py_str v else py_str v) of
             Inl e \<Rightarrow> Inl e
           | Inr rendered \<Rightarrow>
               (case render_values d keys of
                  Inl e \<Rightarrow> Inl e
                | Inr values \<Rightarrow> Inr (rendered # values))))"

definition serialize_transaction :: "pydict \<Rightarrow> error + string" where
  "serialize_transaction transaction =
     (let sorted_keys = sort (map fst transaction)
      in case render_values transaction sorted_keys of
           Inl e \<Rightarrow> Inl e
         | Inr values \<Rightarrow> Inr (join_comma values))"

definition serialize_block_header :: "pydict \<Rightarrow> error + string" where
  "serialize_block_header header =
     (let header_copy = filter (\<lambda>(k, v). k \<noteq> ''hash'') header;
          sorted_keys = sort (map fst header_copy)
      in case render_values header_copy sorted_keys of
           Inl e \<Rightarrow> Inl e
         | Inr values \<Rightarrow> Inr (join_comma values))"

definition hash_transaction :: "pydict \<Rightarrow> error + string" where
  "hash_transaction transaction =
     (case serialize_transaction transaction of
        Inl e \<Rightarrow> Inl e
      | Inr serialized \<Rightarrow> Inr (''0x'' @ sha256_hexdigest (encode_utf8 serialized)))"

definition hash_block_header :: "pydict \<Rightarrow> error + string" where
  "hash_block_header header =
     (case serialize_block_header header of
        Inl e \<Rightarrow> Inl e
      | Inr serialized \<Rightarrow> Inr (''0x'' @ sha256_hexdigest (encode_utf8 serialized)))"

text \<open>The header of \<open>test_serialization\<close>, in the order the test writes its fields.\<close>

definition known_header :: pydict where
  "known_header = [
     (''difficulty'', PInt 5),
     (''height'', PInt 203),
     (''transactions_merkle_root'', PStr ''0xddba0c2d7d38a9bc8ba357d1fcb4a4be339ab5fddf8cdcc4419970e4746d1f6e''),
     (''miner'', PStr ''0xdc45038aee5144bbfa641912eaf32ebf2bad2bd7''),
     (''previous_block_header_hash'', PStr ''0xb2448304889df2935277464e90a73e53b9d2c5820c48de4a40d4fa5b844c7b57''),
     (''timestamp'', PInt 1697412660),
     (''transactions_count'', PInt 97),
     (''nonce'', PInt 0)]"

section \<open>merkle.py\<close>

definition NULL_HASH :: string where
  "NULL_HASH = ''0x'' @ replicate 64 CHR ''0''"

text \<open>
  \<open>a < b\<close> on Python strings is the lexicographic order on code points, a proper prefix
  being smaller: the order of \<open>List_Lexorder\<close> over \<open>Char_ord\<close>.
\<close>

definition hash_pair :: "string \<Rightarrow> string \<Rightarrow> string" where
  "hash_pair a b =
     (let a_hex = drop 2 a;
          b_hex = drop 2 b;
          combined = (if a < b then a_hex @ b_hex else b_hex @ a_hex)
      in ''0x'' @ sha256_hexdigest (encode_utf8 combined))"

text \<open>The \<open>for i in range(0, len(current_level), 2)\<close> loop of \<open>build_merkle_tree\<close>.\<close>

fun pair_level :: "string list \<Rightarrow> string list" where
  "pair_level [] = []"
| "pair_level [left] = [hash_pair left NULL_HASH]"
| "pair_level (left # right # rest) = hash_pair left right # pair_level rest"

lemma length_pair_level: "length (pair_level lvl) = (length lvl + 1) div 2"
  by (induction lvl rule: pair_level.induct) simp_all

text \<open>The \<open>while len(current_level) > 1\<close> loop of \<open>build_merkle_tree\<close>.\<close>

function merkle_loop :: "string list \<Rightarrow> string list" where
  "merkle_loop current_level =
     (if length current_level > 1 then merkle_loop (pair_level current_level)
      else current_level)"
  by pat_completeness auto
termination
  by (relation "measure length") (auto simp: length_pair_level)

declare merkle_loop.simps [simp del]

text \<open>\<open>xs[0]\<close>\<close>

definition first :: "'a list \<Rightarrow> error + 'a" where
  "first xs = (case xs of [] \<Rightarrow> Inl IndexError | x # _ \<Rightarrow> Inr x)"

definition build_merkle_tree :: "string list \<Rightarrow> error + string" where
  "build_merkle_tree tx_hashes =
     (if tx_hashes = [] then Inr NULL_HASH
      else if length tx_hashes = 1 then first tx_hashes
      else first (merkle_loop tx_hashes))"

text \<open>
  The \<open>for\<close> loop of \<open>build_merkle_tree_with_proof\<close>, from position \<open>i\<close> on: it builds
  the next level and, at the pair that holds \<open>current_index\<close>, appends the sibling to
  \<open>proof\<close> (\<open>add_sibling\<close> is the \<open>if\<close>/\<open>elif\<close> of the loop body).
\<close>

definition add_sibling :: "int \<Rightarrow> int \<Rightarrow> string \<Rightarrow> string \<Rightarrow> string list \<Rightarrow> string list" where
  "add_sibling current_index i left right proof =
     (if i = current_index then proof @ [right]
      else if i + 1 = current_index then proof @ [left]
      else proof)"

fun pair_level_proof ::
  "int \<Rightarrow> int \<Rightarrow> string list \<Rightarrow> string list \<Rightarrow> string list \<times> string list" where
  "pair_level_proof current_index i [] proof = ([], proof)"
| "pair_level_proof current_index i [left] proof =
     ([hash_pair left NULL_HASH], add_sibling current_index i left NULL_HASH proof)"
| "pair_level_proof current_index i (left # right # rest) proof =
     (case pair_level_proof current_index (i + 2) rest
             (add_sibling current_index i left right proof) of
        (next_level, proof') \<Rightarrow> (hash_pair left right # next_level, proof'))"

lemma fst_pair_level_proof: "fst (pair_level_proof ci i lvl pr) = pair_level lvl"
  by (induction ci i lvl pr rule: pair_level_proof.induct) (auto split: prod.split)

text \<open>
  The \<open>while\<close> loop of \<open>build_merkle_tree_with_proof\<close>, on the state
  \<open>(current_level, current_index, proof)\<close>.
\<close>

function proof_loop :: "string list \<Rightarrow> int \<Rightarrow> string list \<Rightarrow> string list \<times> string list" where
  "proof_loop current_level current_index proof =
     (if length current_level > 1 then
        (let next_index = current_index div 2;
             (next_level, proof') = pair_level_proof current_index 0 current_level proof
         in proof_loop next_level next_index proof')
      else (current_level, proof))"
  by pat_completeness auto
termination
proof (relation "measure (\<lambda>(lvl, ci, pr). length lvl)")
  show "wf (measure (\<lambda>(lvl, ci, pr). length lvl))"
    by simp
next
  fix current_level :: "string list" and current_index :: int and "proof" :: "string list"
    and next_index x next_level proof'
  assume "1 < length current_level"
    and "x = pair_level_proof current_index 0 current_level proof"
    and "(next_level, proof') = x"
  then have "next_level = pair_level current_level"
    using fst_pair_level_proof [of current_index 0 current_level "proof"] by (metis fst_conv)
  with \<open>1 < length current_level\<close>
  show "((next_level, next_index, proof'), (current_level, current_index, proof))
          \<in> measure (\<lambda>(lvl, ci, pr). length lvl)"
    by (simp add: length_pair_level)
qed

declare proof_loop.simps [simp del]

definition build_merkle_tree_with_proof ::
  "string list \<Rightarrow> int \<Rightarrow> error + (string \<times> string list)" where
  "build_merkle_tree_with_proof tx_hashes tx_index =
     (if tx_hashes = [] \<or> tx_index \<ge> int (length tx_hashes) then Inl InvalidIndex
      else if length tx_hashes = 1 then
        (case first tx_hashes of Inl e \<Rightarrow> Inl e | Inr root \<Rightarrow> Inr (root, []))
      else
        (case proof_loop tx_hashes tx_index [] of
           (current_level, proof) \<Rightarrow>
             (case first current_level of
                Inl e \<Rightarrow> Inl e
              | Inr root \<Rightarrow> Inr (root, proof))))"

text \<open>
  The \<open>for sibling in proof\<close> loop of \<open>verify_merkle_proof\<close>, on the state
  \<open>(current, current_index, current_level_size)\<close>. Python's \<open>%\<close> and \<open>//\<close> round towards
  minus infinity, as \<open>mod\<close> and \<open>div\<close> on \<open>int\<close> do.
\<close>

fun verify_loop :: "string list \<Rightarrow> string \<times> int \<times> int \<Rightarrow> string \<times> int \<times> int" where
  "verify_loop [] st = st"
| "verify_loop (sibling # rest) (current, current_index, current_level_size) =
     verify_loop rest
       ((if current_index mod 2 = 0 then hash_pair current sibling
         else hash_pair sibling current),
        current_index div 2,
        (current_level_size + 1) div 2)"

definition verify_merkle_proof :: "string \<Rightarrow> string list \<Rightarrow> string \<Rightarrow> int \<Rightarrow> int \<Rightarrow> bool" where
  "verify_merkle_proof tx_hash proof merkle_root tx_index total_txs =
     (case verify_loop proof (tx_hash, tx_index, total_txs) of
        (current, current_index, current_level_size) \<Rightarrow> current = merkle_root)"

text \<open>The leaves of the module's self-test.\<close>

definition test_hashes :: "string list" where
  "test_hashes = [
     ''0x0101010101010101010101010101010101010101010101010101010101010101'',
     ''0x0202020202020202020202020202020202020202020202020202020202020202'',
     ''0x0303030303030303030303030303030303030303030303030303030303030303'',
     ''0x0404040404040404040404040404040404040404040404040404040404040404'',
     ''0x0505050505050505050505050505050505050505050505050505050505050505'']"

section \<open>block.py\<close>

definition MAX_DIFFICULTY :: int where
  "MAX_DIFFICULTY = 6"

definition DIFFICULTY_INCREASE_INTERVAL :: int where
  "DIFFICULTY_INCREASE_INTERVAL = 50"

definition MAX_TRANSACTIONS_PER_BLOCK :: int where
  "MAX_TRANSACTIONS_PER_BLOCK = 100"

text \<open>Python's \<open>//\<close> rounds towards minus infinity, as \<open>div\<close> on \<open>int\<close> does.\<close>

definition calculate_difficulty :: "int \<Rightarrow> int" where
  "calculate_difficulty height =
     (let difficulty = 1 + (height div DIFFICULTY_INCREASE_INTERVAL)
      in min difficulty MAX_DIFFICULTY)"

text \<open>
  \<open>a < b\<close> on Python values: integers by value, strings lexicographically, and a
  \<open>TypeError\<close> for any other pair.
\<close>

fun py_less :: "pyval \<Rightarrow> pyval \<Rightarrow> error + bool" where
  "py_less (PInt a) (PInt b) = Inr (a < b)"
| "py_less (PStr a) (PStr b) = Inr (a < b)"
| "py_less a b = Inl TypeError"

text \<open>\<open>[tx for tx in mempool if tx['lock_time'] < next_block_timestamp]\<close>\<close>

fun executable_txs :: "pydict list \<Rightarrow> int \<Rightarrow> error + pydict list" where
  "executable_txs [] next_block_timestamp = Inr []"
| "executable_txs (tx # mempool) next_block_timestamp =
     (case dict_get tx ''lock_time'' of
        Inl e \<Rightarrow> Inl e
      | Inr lock_time \<Rightarrow>
          (case py_less lock_time (PInt next_block_timestamp) of
             Inl e \<Rightarrow> Inl e
           | Inr keep \<Rightarrow>
               (case executable_txs mempool next_block_timestamp of
                  Inl e \<Rightarrow> Inl e
                | Inr rest \<Rightarrow> Inr (if keep then tx # rest else rest))))"

text \<open>
  \<open>executable.sort(key=lambda tx: tx['transaction_fee'], reverse=True)\<close>. The sort
  first computes the key of every element, in order; then it compares keys with \<open><\<close>
  only. It is stable, also with \<open>reverse=True\<close>: elements with equal keys keep their
  original order. The model is the stable insertion sort on the keyed list that puts an
  element before the first one whose key is not greater; a comparison that raises ends
  the sort with that error.
\<close>

fun fee_keys :: "pydict list \<Rightarrow> error + (pyval \<times> pydict) list" where
  "fee_keys [] = Inr []"
| "fee_keys (tx # txs) =
     (case dict_get tx ''transaction_fee'' of
        Inl e \<Rightarrow> Inl e
      | Inr fee \<Rightarrow>
          (case fee_keys txs of
             Inl e \<Rightarrow> Inl e
           | Inr rest \<Rightarrow> Inr ((fee, tx) # rest)))"

fun insort_desc :: "pyval \<times> 'a \<Rightarrow> (pyval \<times> 'a) list \<Rightarrow> error + (pyval \<times> 'a) list" where
  "insort_desc x [] = Inr [x]"
| "insort_desc x (y # ys) =
     (case py_less (fst x) (fst y) of
        Inl e \<Rightarrow> Inl e
      | Inr smaller \<Rightarrow>
          if smaller then
            (case insort_desc x ys of
               Inl e \<Rightarrow> Inl e
             | Inr rest \<Rightarrow> Inr (y # rest))
          else Inr (x # y # ys))"

fun sort_desc :: "(pyval \<times> 'a) list \<Rightarrow> error + (pyval \<times> 'a) list" where
  "sort_desc [] = Inr []"
| "sort_desc (x # xs) =
     (case sort_desc xs of
        Inl e \<Rightarrow> Inl e
      | Inr sorted_xs \<Rightarrow> insort_desc x sorted_xs)"

text \<open>
  \<open>xs[:n]\<close>: the first \<open>n\<close> elements, and for a negative \<open>n\<close> all but the last \<open>-n\<close>.
\<close>

definition slice_to :: "'a list \<Rightarrow> int \<Rightarrow> 'a list" where
  "slice_to xs n = (if n < 0 then take (nat (int (length xs) + n)) xs else take (nat n) xs)"

definition select_transactions :: "pydict list \<Rightarrow> int \<Rightarrow> int \<Rightarrow> error + pydict list" where
  "select_transactions mempool next_block_timestamp max_count =
     (case executable_txs mempool next_block_timestamp of
        Inl e \<Rightarrow> Inl e
      | Inr executable \<Rightarrow>
          (case fee_keys executable of
             Inl e \<Rightarrow> Inl e
           | Inr keyed \<Rightarrow>
               (case sort_desc keyed of
                  Inl e \<Rightarrow> Inl e
                | Inr sorted_txs \<Rightarrow> Inr (slice_to (map snd sorted_txs) max_count))))"

text \<open>The call without \<open>max_count\<close>, which takes the default.\<close>

definition select_transactions_default :: "pydict list \<Rightarrow> int \<Rightarrow> error + pydict list" where
  "select_transactions_default mempool next_block_timestamp =
     select_transactions mempool next_block_timestamp MAX_TRANSACTIONS_PER_BLOCK"

text \<open>
  The data model gives every transaction an integer \<open>lock_time\<close> and an integer
  \<open>transaction_fee\<close>; \<open>int_fields\<close> says so of a dictionary, and \<open>lock_time_of\<close> and
  \<open>fee_of\<close> read the two fields.
\<close>

definition lock_time_of :: "pydict \<Rightarrow> int" where
  "lock_time_of tx = (case dict_get tx ''lock_time'' of Inr (PInt n) \<Rightarrow> n | _ \<Rightarrow> 0)"

definition fee_of :: "pydict \<Rightarrow> int" where
  "fee_of tx = (case dict_get tx ''transaction_fee'' of Inr (PInt n) \<Rightarrow> n | _ \<Rightarrow> 0)"

definition int_fields :: "pydict \<Rightarrow> bool" where
  "int_fields tx =
     (case (dict_get tx ''lock_time'', dict_get tx ''transaction_fee'') of
        (Inr (PInt l), Inr (PInt f)) \<Rightarrow> True
      | _ \<Rightarrow> False)"

text \<open>A mempool of five transactions; the third is locked at timestamp 100.\<close>

definition example_mempool :: "pydict list" where
  "example_mempool = [
     [(''lock_time'', PInt 10), (''transaction_fee'', PInt 5), (''sender'', PStr ''0xa1'')],
     [(''lock_time'', PInt 20), (''transaction_fee'', PInt 9), (''sender'', PStr ''0xa2'')],
     [(''lock_time'', PInt 100), (''transaction_fee'', PInt 50), (''sender'', PStr ''0xa3'')],
     [(''lock_time'', PInt 30), (''transaction_fee'', PInt 5), (''sender'', PStr ''0xa4'')],
     [(''lock_time'', PInt 99), (''transaction_fee'', PInt 9), (''sender'', PStr ''0xa5'')]]"

text \<open>
  The \<open>while True\<close> loop of \<open>mine_block\<close>. It has no bound, so the model is a partial
  function: \<open>None\<close> is the search that never ends, \<open>Some (Inl e)\<close> a raised exception,
  \<open>Some (Inr header)\<close> the returned header. The two \<open>print\<close> calls read
  \<open>header['height']\<close> and raise \<open>KeyError\<close> when the field is missing. Formatting the
  message raises nothing more: an integer it shows that is too long for \<open>str\<close> is the
  height or the nonce of a header, whose serialization raises the same \<open>ValueError\<close>.
\<close>

partial_function (option) mine_loop :: "pydict \<Rightarrow> string \<Rightarrow> int \<Rightarrow> (error + pydict) option" where
  "mine_loop header required_prefix nonce =
     (let header1 = dict_set header ''nonce'' (PInt nonce)
      in case hash_block_header header1 of
           Inl e \<Rightarrow> Some (Inl e)
         | Inr block_hash \<Rightarrow>
             if startswith block_hash required_prefix then
               (let header2 = dict_set header1 ''hash'' (PStr block_hash)
                in case dict_get header2 ''height'' of
                     Inl e \<Rightarrow> Some (Inl e)
                   | Inr height \<Rightarrow> Some (Inr header2))
             else if (nonce + 1) mod 10000 = 0 then
               (case dict_get header1 ''height'' of
                  Inl e \<Rightarrow> Some (Inl e)
                | Inr height \<Rightarrow> mine_loop header1 required_prefix (nonce + 1))
             else mine_loop header1 required_prefix (nonce + 1))"

text \<open>
  \<open>"0" * difficulty\<close> is the empty string for a negative integer, and a \<open>TypeError\<close>
  for a value that is not an integer.
\<close>

definition mine_block :: "pydict \<Rightarrow> (error + pydict) option" where
  "mine_block header =
     (case dict_get header ''difficulty'' of
        Inl e \<Rightarrow> Some (Inl e)
      | Inr (PInt difficulty) \<Rightarrow>
          mine_loop header (''0x'' @ replicate (nat difficulty) CHR ''0'') 0
      | Inr _ \<Rightarrow> Some (Inl TypeError))"

text \<open>
  The header that \<open>create_block_header\<close> builds for height 2 of the chain mined from an
  empty mempool by the default miner (\<open>previous_block_header_hash\<close> is the hash of the
  block mined at height 1), and the header that \<open>mine_block\<close> returns for it.
\<close>

definition block2_header :: pydict where
  "block2_header = [
     (''difficulty'', PInt 1),
     (''height'', PInt 2),
     (''miner'', PStr ''0xdc45038aee5144bbfa641912eaf32ebf2bad2bd7''),
     (''nonce'', PInt 0),
     (''previous_block_header_hash'', PStr ''0x0494d64e24741ba48304f9104437aceeda54beecbc6ae60d2ef0106545c1f87c''),
     (''timestamp'', PInt 1697412620),
     (''transactions_count'', PInt 0),
     (''transactions_merkle_root'', PStr ''0x0000000000000000000000000000000000000000000000000000000000000000'')]"

definition block2_mined :: pydict where
  "block2_mined = [
     (''difficulty'', PInt 1),
     (''height'', PInt 2),
     (''miner'', PStr ''0xdc45038aee5144bbfa641912eaf32ebf2bad2bd7''),
     (''nonce'', PInt 1),
     (''previous_block_header_hash'', PStr ''0x0494d64e24741ba48304f9104437aceeda54beecbc6ae60d2ef0106545c1f87c''),
     (''timestamp'', PInt 1697412620),
     (''transactions_count'', PInt 0),
     (''transactions_merkle_root'', PStr ''0x0000000000000000000000000000000000000000000000000000000000000000''),
     (''hash'', PStr ''0x00d7d626b729735fbe6089f934be486b2dcb2b57747a5ab921cd9f68fb734488'')]"

section \<open>Properties of the difficulty policy\<close>

lemma calculate_difficulty_eq:
  "calculate_difficulty h = min (1 + h div 50) 6"
  by (simp add: calculate_difficulty_def DIFFICULTY_INCREASE_INTERVAL_def MAX_DIFFICULTY_def)

lemma calculate_difficulty_mono:
  assumes "h \<le> h'"
  shows "calculate_difficulty h \<le> calculate_difficulty h'"
proof -
  from assms have "h div 50 \<le> h' div 50"
    by (rule zdiv_mono1) simp
  then show ?thesis
    by (simp add: calculate_difficulty_eq)
qed

text \<open>
  C5. For every height \<open>h \<ge> 0\<close> the difficulty is \<open>min (1 + \<lfloor>h / 50\<rfloor>) 6\<close>; it is
  monotonic non-decreasing in the height; and it is 1 at heights 0 and 49, 2 at height 50,
  and 6 at heights 250 and 1000.
\<close>

theorem calculate_difficulty_policy:
  assumes "0 \<le> h" and "h \<le> h'"
  shows "calculate_difficulty h = min (1 + h div 50) 6
       \<and> calculate_difficulty h \<le> calculate_difficulty h'
       \<and> calculate_difficulty 0 = 1 \<and> calculate_difficulty 49 = 1
       \<and> calculate_difficulty 50 = 2 \<and> calculate_difficulty 250 = 6
       \<and> calculate_difficulty 1000 = 6"
  using assms(2) by (simp add: calculate_difficulty_mono) (simp add: calculate_difficulty_eq)

theorem calculate_difficulty_policy_witness:
  "(0::int) \<le> 120 \<and> (120::int) \<le> 260
   \<and> calculate_difficulty 120 = 3 \<and> calculate_difficulty 120 \<le> calculate_difficulty 260"
proof -
  have a: "(0::int) \<le> 120" and b: "(120::int) \<le> 260"
    by simp_all
  show ?thesis
    using calculate_difficulty_policy [OF a b] by simp
qed

section \<open>Properties of the serializer and the hasher\<close>

lemma str_digits_length_gt: "10 ^ k \<le> n \<Longrightarrow> k < length (str_digits n)"
proof (induction n arbitrary: k rule: str_digits.induct)
  case (1 n)
  show ?case
  proof (cases "n < 10")
    case True
    have "k = 0"
    proof (rule ccontr)
      assume "k \<noteq> 0"
      then have "(10::int) ^ 1 \<le> 10 ^ k"
        by (intro power_increasing) simp_all
      with "1.prems" True show False by simp
    qed
    with True show ?thesis
      by (subst str_digits.simps) simp
  next
    case False
    show ?thesis
    proof (cases k)
      case 0
      with False show ?thesis
        by (subst str_digits.simps) simp
    next
      case (Suc k')
      with "1.prems" have "10 * 10 ^ k' \<le> n" by simp
      then have "10 ^ k' \<le> n div 10" by linarith
      then have "k' < length (str_digits (n div 10))"
        by (rule "1.IH" [OF False])
      with False Suc show ?thesis
        by (subst str_digits.simps) simp
    qed
  qed
qed

lemma str_digits_length_le: "n < 10 ^ k \<Longrightarrow> 0 < k \<Longrightarrow> length (str_digits n) \<le> k"
proof (induction n arbitrary: k rule: str_digits.induct)
  case (1 n)
  show ?case
  proof (cases "n < 10")
    case True
    with "1.prems" show ?thesis
      by (subst str_digits.simps) simp
  next
    case False
    from "1.prems" obtain k' where k: "k = Suc k'"
      by (cases k) simp_all
    have "0 < k'"
    proof (rule ccontr)
      assume "\<not> 0 < k'"
      with k "1.prems" False show False by simp
    qed
    from "1.prems" k have "n < 10 * 10 ^ k'" by simp
    then have "n div 10 < 10 ^ k'" by linarith
    then have "length (str_digits (n div 10)) \<le> k'"
      using \<open>0 < k'\<close> by (rule "1.IH" [OF False])
    with False k show ?thesis
      by (subst str_digits.simps) simp
  qed
qed

lemma str_int_small:
  assumes "\<bar>n\<bar> < 10 ^ nat INT_MAX_STR_DIGITS"
  shows "\<exists>s. str_int n = Inr s"
proof -
  have "0 < nat INT_MAX_STR_DIGITS"
    by (simp add: INT_MAX_STR_DIGITS_def)
  with assms have "length (str_digits \<bar>n\<bar>) \<le> nat INT_MAX_STR_DIGITS"
    by (rule str_digits_length_le)
  moreover have "0 \<le> INT_MAX_STR_DIGITS"
    by (simp add: INT_MAX_STR_DIGITS_def)
  ultimately have "\<not> int (length (str_digits \<bar>n\<bar>)) > INT_MAX_STR_DIGITS"
    by linarith
  then show ?thesis
    by (simp add: str_int_def Let_def)
qed

lemma str_int_large:
  assumes "10 ^ nat INT_MAX_STR_DIGITS \<le> \<bar>n\<bar>"
  shows "str_int n = Inl ValueError"
proof -
  from assms have "nat INT_MAX_STR_DIGITS < length (str_digits \<bar>n\<bar>)"
    by (rule str_digits_length_gt)
  then have "int (length (str_digits \<bar>n\<bar>)) > INT_MAX_STR_DIGITS"
    by linarith
  then show ?thesis
    by (simp add: str_int_def Let_def)
qed

lemma py_str_renderable: "renderable v \<Longrightarrow> \<exists>s. py_str v = Inr s"
  by (cases v) (simp_all add: str_int_small)

lemma render_values_renderable:
  assumes "list_all (\<lambda>(k, v). renderable v) d" and "set keys \<subseteq> fst ` set d"
  shows "\<exists>values. map (\<lambda>k. py_str (the (map_of d k))) keys = map Inr values \<and>
                  render_values d keys = Inr values"
  using assms(2)
proof (induction keys)
  case Nil
  then show ?case by simp
next
  case (Cons key keys)
  then have m: "key \<in> fst ` set d" and "set keys \<subseteq> fst ` set d"
    by simp_all
  with Cons.IH obtain vals where
    v: "map (\<lambda>k. py_str (the (map_of d k))) keys = map Inr vals" and
    r: "render_values d keys = Inr vals"
    by blast
  from m obtain v0 where g: "map_of d key = Some v0"
    by (cases "map_of d key") (auto simp: map_of_eq_None_iff)
  then have "(key, v0) \<in> set d"
    by (rule map_of_SomeD)
  with assms(1) have "renderable v0"
    by (auto simp: list_all_iff)
  then obtain s where s: "py_str v0 = Inr s"
    using py_str_renderable by blast
  have "map (\<lambda>k. py_str (the (map_of d k))) (key # keys) = map Inr (s # vals)"
    using v g s by simp
  moreover have "render_values d (key # keys) = Inr (s # vals)"
    using r g s by (simp add: dict_get_def)
  ultimately show ?case by blast
qed

lemma serialize_transaction_renderable:
  assumes "list_all (\<lambda>(k, v). renderable v) d"
  shows "\<exists>values. map (\<lambda>k. py_str (the (map_of d k))) (sort (map fst d)) = map Inr values \<and>
                  serialize_transaction d = Inr (join_comma values)"
proof -
  have "set (sort (map fst d)) \<subseteq> fst ` set d"
    by simp
  with assms obtain vals where
    "map (\<lambda>k. py_str (the (map_of d k))) (sort (map fst d)) = map Inr vals" and
    "render_values d (sort (map fst d)) = Inr vals"
    using render_values_renderable by blast
  then show ?thesis
    by (auto simp: serialize_transaction_def)
qed

lemma renderable_digits:
  assumes "int (length (str_digits \<bar>n\<bar>)) \<le> INT_MAX_STR_DIGITS"
  shows "renderable (PInt n)"
proof -
  have "\<not> 10 ^ nat INT_MAX_STR_DIGITS \<le> \<bar>n\<bar>"
  proof
    assume "10 ^ nat INT_MAX_STR_DIGITS \<le> \<bar>n\<bar>"
    then have "nat INT_MAX_STR_DIGITS < length (str_digits \<bar>n\<bar>)"
      by (rule str_digits_length_gt)
    with assms show False by linarith
  qed
  then show ?thesis by simp
qed

lemma serialize_block_header_eq:
  "serialize_block_header d = serialize_transaction (filter (\<lambda>(k, v). k \<noteq> ''hash'') d)"
  by (simp add: serialize_block_header_def serialize_transaction_def Let_def)

lemma filter_dict_set_hash:
  "filter (\<lambda>(k, v). k \<noteq> ''hash'') (dict_set d ''hash'' v) = filter (\<lambda>(k, v). k \<noteq> ''hash'') d"
  by (induction d) auto

lemma hash_block_header_dict_set_hash:
  "hash_block_header (dict_set d ''hash'' v) = hash_block_header d"
  by (simp add: hash_block_header_def serialize_block_header_def filter_dict_set_hash Let_def)

text \<open>
  C4, as the code has it. Canonical serialization has no \<open>SerializationError\<close>: a value
  that is neither an integer nor a string is not rejected but handed to \<open>str\<close> like any
  other. For a mapping whose values are strings, \<open>None\<close>, or integers of at most 4300
  digits (\<open>renderable\<close>), every \<open>str\<close> call returns and both serializers succeed with
  the renderings joined by commas in ascending key order, the header serializer after
  dropping \<open>hash\<close>.
\<close>

theorem serialization_succeeds:
  assumes "list_all (\<lambda>(k, v). renderable v) d"
  shows "(\<exists>values.
            map (\<lambda>k. py_str (the (map_of d k))) (sort (map fst d)) = map Inr values \<and>
            serialize_transaction d = Inr (join_comma values)) \<and>
         (\<exists>s. serialize_block_header d = Inr s \<and>
              serialize_transaction (filter (\<lambda>(k, v). k \<noteq> ''hash'') d) = Inr s)"
proof -
  have "list_all (\<lambda>(k, v). renderable v) (filter (\<lambda>(k, v). k \<noteq> ''hash'') d)"
    using assms by (simp add: list_all_iff)
  then obtain vals where
    "serialize_transaction (filter (\<lambda>(k, v). k \<noteq> ''hash'') d) = Inr (join_comma vals)"
    using serialize_transaction_renderable by blast
  then show ?thesis
    using serialize_transaction_renderable [OF assms] by (simp add: serialize_block_header_eq)
qed

theorem serialization_succeeds_witness:
  "list_all (\<lambda>(k, v). renderable v) [(''amount'', PInt 5), (''memo'', PNone)] \<and>
   (\<exists>values.
      map (\<lambda>k. py_str (the (map_of [(''amount'', PInt 5), (''memo'', PNone)] k)))
        (sort (map fst [(''amount'', PInt 5), (''memo'', PNone)])) = map Inr values \<and>
      serialize_transaction [(''amount'', PInt 5), (''memo'', PNone)] = Inr (join_comma values)) \<and>
   (\<exists>s. serialize_block_header [(''amount'', PInt 5), (''memo'', PNone)] = Inr s \<and>
        serialize_transaction
          (filter (\<lambda>(k, v). k \<noteq> ''hash'') [(''amount'', PInt 5), (''memo'', PNone)]) = Inr s)"
proof -
  have "int (length (str_digits \<bar>5\<bar>)) \<le> INT_MAX_STR_DIGITS"
    by code_simp
  then have "renderable (PInt 5)"
    by (rule renderable_digits)
  then have a: "list_all (\<lambda>(k, v). renderable v) [(''amount'', PInt 5), (''memo'', PNone)]"
    by simp
  show ?thesis
    using a serialization_succeeds [OF a] by blast
qed

text \<open>
  The claim as stated fails in both halves. A mapping with a value that is neither an
  integer nor a string is serialized, \<open>None\<close> as its \<open>str\<close> text; and a mapping whose only
  value is the integer \<open>10 ^ 4300\<close>, of 4301 digits, is not: \<open>str\<close> raises \<open>ValueError\<close>.
\<close>

theorem serialization_none_and_huge_int:
  "serialize_transaction [(''amount'', PInt 5), (''memo'', PNone)] = Inr ''5,None'' \<and>
   serialize_block_header [(''amount'', PInt 5), (''memo'', PNone)] = Inr ''5,None'' \<and>
   serialize_transaction [(''amount'', PInt (10 ^ nat INT_MAX_STR_DIGITS))] = Inl ValueError"
proof -
  have a: "serialize_transaction [(''amount'', PInt 5), (''memo'', PNone)] = Inr ''5,None''"
    by code_simp
  have b: "serialize_block_header [(''amount'', PInt 5), (''memo'', PNone)] = Inr ''5,None''"
    by code_simp
  have "str_int (10 ^ nat INT_MAX_STR_DIGITS) = Inl ValueError"
    by (rule str_int_large) simp
  then have c: "serialize_transaction [(''amount'', PInt (10 ^ nat INT_MAX_STR_DIGITS))] =
                  Inl ValueError"
    by (simp add: serialize_transaction_def dict_get_def)
  from a b c show ?thesis
    by blast
qed

text \<open>
  C2. The known vector: the header of \<open>test_serialization\<close> hashes to
  \<open>0x073c348de2486c616699fcd8267dc895f2d8b43355b126295da92df2961f8a87\<close>; the fields are
  sorted by key, the integers written in decimal and the strings as they are, joined with
  commas, and the SHA-256 of the UTF-8 bytes is prefixed with \<open>0x\<close>.
\<close>

theorem hash_block_header_known_vector:
  "hash_block_header known_header =
     Inr ''0x073c348de2486c616699fcd8267dc895f2d8b43355b126295da92df2961f8a87''"
  by code_simp

section \<open>Properties of the transaction selector\<close>

lemma int_fields_lock_time: "int_fields tx \<Longrightarrow> dict_get tx ''lock_time'' = Inr (PInt (lock_time_of tx))"
  by (auto simp: int_fields_def lock_time_of_def split: sum.splits pyval.splits)

lemma int_fields_fee: "int_fields tx \<Longrightarrow> dict_get tx ''transaction_fee'' = Inr (PInt (fee_of tx))"
  by (auto simp: int_fields_def fee_of_def split: sum.splits pyval.splits)

lemma executable_txs_int_fields:
  "list_all int_fields mempool \<Longrightarrow>
   executable_txs mempool t = Inr (filter (\<lambda>tx. lock_time_of tx < t) mempool)"
  by (induction mempool) (simp_all add: int_fields_lock_time)

lemma fee_keys_int_fields:
  "list_all int_fields txs \<Longrightarrow> fee_keys txs = Inr (map (\<lambda>tx. (PInt (fee_of tx), tx)) txs)"
  by (induction txs) (simp_all add: int_fields_fee)

lemma insort_desc_int:
  "insort_desc (PInt (f x), x) (map (\<lambda>y. (PInt (f y), y)) ys) =
   Inr (map (\<lambda>y. (PInt (f y), y)) (insort_key (\<lambda>y. - f y) x ys))"
  by (induction ys) auto

lemma sort_desc_int:
  "sort_desc (map (\<lambda>y. (PInt (f y), y)) xs) =
   Inr (map (\<lambda>y. (PInt (f y), y)) (sort_key (\<lambda>y. - f y) xs))"
  by (induction xs) (simp_all add: insort_desc_int)

lemma select_transactions_int_fields:
  assumes "list_all int_fields mempool"
  shows "select_transactions mempool t max_count =
         Inr (slice_to (sort_key (\<lambda>tx. - fee_of tx) (filter (\<lambda>tx. lock_time_of tx < t) mempool)) max_count)"
proof -
  let ?ex = "filter (\<lambda>tx. lock_time_of tx < t) mempool"
  have "list_all int_fields ?ex"
    using assms by (simp add: list_all_iff)
  then have "fee_keys ?ex = Inr (map (\<lambda>tx. (PInt (fee_of tx), tx)) ?ex)"
    by (rule fee_keys_int_fields)
  then show ?thesis
    using assms
    by (simp add: select_transactions_def executable_txs_int_fields sort_desc_int comp_def)
qed

text \<open>
  C6, as the code has it. For a mempool of transactions with integer \<open>lock_time\<close> and
  \<open>transaction_fee\<close>, a timestamp \<open>t\<close> and a cap \<open>max_count \<ge> 0\<close>, the result is the
  first \<open>max_count\<close> entries of a list \<open>selected\<close> that holds exactly the transactions
  with \<open>lock_time < t\<close>, is ordered by fee descending, and keeps transactions of equal
  fee in their original order; the default cap is 100.
\<close>

theorem select_transactions_spec:
  assumes "list_all int_fields mempool" and "0 \<le> max_count"
  shows "\<exists>selected.
           select_transactions mempool t max_count = Inr (take (nat max_count) selected) \<and>
           mset selected = mset (filter (\<lambda>tx. lock_time_of tx < t) mempool) \<and>
           sorted_wrt (\<lambda>a b. fee_of a \<ge> fee_of b) selected \<and>
           (\<forall>k. filter (\<lambda>tx. fee_of tx = k) selected =
                filter (\<lambda>tx. fee_of tx = k) (filter (\<lambda>tx. lock_time_of tx < t) mempool)) \<and>
           select_transactions_default mempool t = select_transactions mempool t 100"
proof -
  let ?ex = "filter (\<lambda>tx. lock_time_of tx < t) mempool"
  let ?S = "sort_key (\<lambda>tx. - fee_of tx) ?ex"
  have 1: "select_transactions mempool t max_count = Inr (take (nat max_count) ?S)"
    using assms by (simp add: select_transactions_int_fields slice_to_def)
  have 2: "mset ?S = mset ?ex"
    by simp
  have "sorted (map (\<lambda>tx. - fee_of tx) ?S)"
    by (rule sorted_sort_key)
  then have 3: "sorted_wrt (\<lambda>a b. fee_of a \<ge> fee_of b) ?S"
    by (simp add: sorted_map)
  have 4: "\<forall>k. filter (\<lambda>tx. fee_of tx = k) ?S = filter (\<lambda>tx. fee_of tx = k) ?ex"
  proof
    fix k
    have "filter (\<lambda>tx. - fee_of tx = - k) ?S = filter (\<lambda>tx. - fee_of tx = - k) ?ex"
      by (rule sort_key_stable)
    then show "filter (\<lambda>tx. fee_of tx = k) ?S = filter (\<lambda>tx. fee_of tx = k) ?ex"
      by simp
  qed
  have 5: "select_transactions_default mempool t = select_transactions mempool t 100"
    by (simp add: select_transactions_default_def MAX_TRANSACTIONS_PER_BLOCK_def)
  from 1 2 3 4 5 show ?thesis
    by blast
qed

theorem select_transactions_spec_witness:
  "list_all int_fields example_mempool \<and> (0::int) \<le> 3 \<and>
   select_transactions example_mempool 100 3 =
     Inr [example_mempool ! 1, example_mempool ! 4, example_mempool ! 0] \<and>
   (\<exists>selected.
      select_transactions example_mempool 100 3 = Inr (take (nat 3) selected) \<and>
      mset selected = mset (filter (\<lambda>tx. lock_time_of tx < 100) example_mempool) \<and>
      sorted_wrt (\<lambda>a b. fee_of a \<ge> fee_of b) selected \<and>
      (\<forall>k. filter (\<lambda>tx. fee_of tx = k) selected =
           filter (\<lambda>tx. fee_of tx = k) (filter (\<lambda>tx. lock_time_of tx < 100) example_mempool)) \<and>
      select_transactions_default example_mempool 100 = select_transactions example_mempool 100 100)"
proof -
  have a: "list_all int_fields example_mempool"
    by (simp add: example_mempool_def int_fields_def dict_get_def)
  have b: "(0::int) \<le> 3"
    by simp
  have c: "select_transactions example_mempool 100 3 =
             Inr [example_mempool ! 1, example_mempool ! 4, example_mempool ! 0]"
    by (simp add: select_transactions_def example_mempool_def dict_get_def slice_to_def)
  show ?thesis
    using a b c select_transactions_spec [OF a b, of 100] by blast
qed

text \<open>
  The claim as stated, for every cap, fails at a negative cap: \<open>executable[:-1]\<close> drops
  the last entry only, so three of the four executable transactions come back where the
  claim allows at most \<open>-1\<close>.
\<close>

theorem select_transactions_negative_cap:
  "select_transactions example_mempool 100 (- 1) =
     Inr [example_mempool ! 1, example_mempool ! 4, example_mempool ! 0] \<and>
   \<not> int (length [example_mempool ! 1, example_mempool ! 4, example_mempool ! 0]) \<le> - 1"
  by (simp add: select_transactions_def example_mempool_def dict_get_def slice_to_def)

section \<open>Properties of the Merkle engine\<close>

lemma verify_loop_size_irrelevant:
  "fst (verify_loop pr (c, i, n1)) = fst (verify_loop pr (c, i, n2))"
  by (induction pr arbitrary: c i n1 n2) simp_all

lemma verify_merkle_proof_fst:
  "verify_merkle_proof tx_hash pr root i n = (fst (verify_loop pr (tx_hash, i, n)) = root)"
  by (simp add: verify_merkle_proof_def case_prod_beta)

lemma snd_pair_level_proof_before:
  "ci < i \<Longrightarrow> snd (pair_level_proof ci i lvl pr) = pr"
  by (induction ci i lvl pr rule: pair_level_proof.induct)
     (auto simp: add_sibling_def split: prod.split)

lemma snd_pair_level_proof_Cons:
  "snd (pair_level_proof ci i (left # right # rest) pr) =
   snd (pair_level_proof ci (i + 2) rest (add_sibling ci i left right pr))"
  by (simp add: case_prod_beta)

lemma pair_level_Cons_nth:
  "pair_level (left # right # rest) ! Suc n = pair_level rest ! n"
  by simp

lemma pair_level_proof_sibling:
  assumes "i \<le> ci" and "ci < i + int (length lvl)" and "i mod 2 = 0"
  shows "\<exists>sib. snd (pair_level_proof ci i lvl pr) = pr @ [sib] \<and>
           (if ci mod 2 = 0 then hash_pair (lvl ! nat (ci - i)) sib
            else hash_pair sib (lvl ! nat (ci - i)))
           = pair_level lvl ! nat ((ci - i) div 2)"
  using assms
proof (induction ci i lvl pr rule: pair_level_proof.induct)
  case (1 ci i pr)
  then show ?case by simp
next
  case (2 ci i left pr)
  then have "ci = i" by simp
  with 2 show ?case by (simp add: add_sibling_def)
next
  case (3 ci i left right rest pr)
  consider "ci = i" | "ci = i + 1" | "i + 2 \<le> ci" using "3.prems" by linarith
  then show ?case
  proof cases
    case 1
    then have "snd (pair_level_proof ci (i + 2) rest (pr @ [right])) = pr @ [right]"
      by (intro snd_pair_level_proof_before) simp
    with 1 "3.prems" show ?thesis
      by (simp add: add_sibling_def snd_pair_level_proof_Cons del: pair_level_proof.simps)
  next
    case 2
    then have "snd (pair_level_proof ci (i + 2) rest (pr @ [left])) = pr @ [left]"
      by (intro snd_pair_level_proof_before) simp
    moreover from 2 "3.prems" have "ci mod 2 = 1" by presburger
    ultimately show ?thesis using 2
      by (simp add: add_sibling_def snd_pair_level_proof_Cons del: pair_level_proof.simps)
  next
    case 3
    then have as: "add_sibling ci i left right pr = pr"
      by (simp add: add_sibling_def)
    have "(i + 2) mod 2 = 0" using "3.prems" by presburger
    with 3 "3.prems" as obtain sib where
      s: "snd (pair_level_proof ci (i + 2) rest pr) = pr @ [sib]" and
      h: "(if ci mod 2 = 0 then hash_pair (rest ! nat (ci - (i + 2))) sib
           else hash_pair sib (rest ! nat (ci - (i + 2))))
          = pair_level rest ! nat ((ci - (i + 2)) div 2)"
      using "3.IH" [of ] by auto
    from 3 have n1: "nat (ci - i) = Suc (Suc (nat (ci - (i + 2))))" by simp
    from 3 have n2: "nat ((ci - i) div 2) = Suc (nat ((ci - (i + 2)) div 2))" by simp
    show ?thesis
      using s h as
      by (simp add: n1 n2 snd_pair_level_proof_Cons del: pair_level_proof.simps cong: if_cong)
  qed
qed

lemma proof_loop_verify:
  assumes "0 \<le> ci" and "ci < int (length lvl)"
  shows "\<exists>r suffix. proof_loop lvl ci pr = ([r], pr @ suffix) \<and>
           (\<forall>sz. fst (verify_loop suffix (lvl ! nat ci, ci, sz)) = r)"
  using assms
proof (induction lvl ci pr rule: proof_loop.induct)
  case (1 lvl ci pr)
  show ?case
  proof (cases "1 < length lvl")
    case True
    obtain nl pr' where p: "pair_level_proof ci 0 lvl pr = (nl, pr')"
      by (cases "pair_level_proof ci 0 lvl pr")
    then have nl: "nl = pair_level lvl"
      using fst_pair_level_proof [of ci 0 lvl pr] by simp
    from "1.prems" obtain sib where
      s: "pr' = pr @ [sib]" and
      h: "(if ci mod 2 = 0 then hash_pair (lvl ! nat ci) sib else hash_pair sib (lvl ! nat ci))
          = nl ! nat (ci div 2)"
      using pair_level_proof_sibling [of 0 ci lvl pr] p nl by (auto cong: if_cong)
    have "0 \<le> ci div 2" using "1.prems" by simp
    moreover have "ci div 2 < int (length nl)"
      using "1.prems" by (simp add: nl length_pair_level)
    ultimately obtain r suffix where
      l: "proof_loop nl (ci div 2) pr' = ([r], pr' @ suffix)" and
      v: "\<And>sz. fst (verify_loop suffix (nl ! nat (ci div 2), ci div 2, sz)) = r"
      using "1.IH" [OF True refl p [symmetric] refl] by blast
    have "proof_loop lvl ci pr = ([r], pr @ (sib # suffix))"
      using True p l s by (subst proof_loop.simps) simp
    moreover have "\<And>sz. fst (verify_loop (sib # suffix) (lvl ! nat ci, ci, sz)) = r"
      using h v by simp
    ultimately show ?thesis by blast
  next
    case False
    with "1.prems" have "length lvl = 1" and ci: "ci = 0" by simp_all
    then obtain r where r: "lvl = [r]" by (cases lvl) simp_all
    have "proof_loop lvl ci pr = ([r], pr @ [])"
      using r by (subst proof_loop.simps) simp
    moreover have "\<And>sz. fst (verify_loop [] (lvl ! nat ci, ci, sz)) = r"
      using r ci by simp
    ultimately show ?thesis by blast
  qed
qed

lemma fst_proof_loop: "fst (proof_loop lvl ci pr) = merkle_loop lvl"
proof (induction lvl ci pr rule: proof_loop.induct)
  case (1 lvl ci pr)
  show ?case
  proof (cases "1 < length lvl")
    case True
    obtain nl pr' where p: "pair_level_proof ci 0 lvl pr = (nl, pr')"
      by (cases "pair_level_proof ci 0 lvl pr")
    then have nl: "nl = pair_level lvl"
      using fst_pair_level_proof [of ci 0 lvl pr] by simp
    have "fst (proof_loop nl (ci div 2) pr') = merkle_loop nl"
      using "1.IH" [OF True refl p [symmetric] refl] .
    with True p nl show ?thesis
      by (subst proof_loop.simps, subst merkle_loop.simps) simp
  next
    case False
    then show ?thesis
      by (subst proof_loop.simps, subst merkle_loop.simps) simp
  qed
qed

lemma build_merkle_tree_with_proof_returns:
  assumes "tx_hashes \<noteq> []" and "0 \<le> i" and "i < int (length tx_hashes)"
  shows "\<exists>root siblings.
           build_merkle_tree_with_proof tx_hashes i = Inr (root, siblings) \<and>
           build_merkle_tree tx_hashes = Inr root \<and>
           (\<forall>n. fst (verify_loop siblings (tx_hashes ! nat i, i, n)) = root)"
proof (cases "length tx_hashes = 1")
  case True
  then obtain r where r: "tx_hashes = [r]" by (cases tx_hashes) simp_all
  with assms have "i = 0" by simp
  with r show ?thesis
    by (simp add: build_merkle_tree_with_proof_def build_merkle_tree_def first_def)
next
  case False
  from assms obtain r suffix where
    l: "proof_loop tx_hashes i [] = ([r], [] @ suffix)" and
    v: "\<forall>n. fst (verify_loop suffix (tx_hashes ! nat i, i, n)) = r"
    using proof_loop_verify [of i tx_hashes "[]"] by blast
  have "merkle_loop tx_hashes = [r]"
    using fst_proof_loop [of tx_hashes i "[]"] l by simp
  with assms False l v show ?thesis
    by (simp add: build_merkle_tree_with_proof_def build_merkle_tree_def first_def)
qed

text \<open>
  C9. \<open>hash_pair\<close> is commutative: the two prefixed strings are compared as wholes, and
  the hex bodies are concatenated in ascending order of that comparison before hashing,
  so the order of the arguments does not matter.
\<close>

theorem hash_pair_commutative: "hash_pair a b = hash_pair b a"
  by (auto simp: hash_pair_def Let_def)

text \<open>
  C8. The result of \<open>verify_merkle_proof\<close> does not depend on its \<open>total_txs\<close> argument:
  the level size is carried through the loop and never read, so no cross-check of the
  index or of the proof length against the shape of the tree takes place; a leaf with
  an empty proof is accepted as its own root at any index and any size.
\<close>

theorem verify_merkle_proof_ignores_total_txs:
  "verify_merkle_proof tx_hash proof merkle_root tx_index n1 =
   verify_merkle_proof tx_hash proof merkle_root tx_index n2 \<and>
   verify_merkle_proof tx_hash [] tx_hash tx_index n1"
  using verify_loop_size_irrelevant [of "proof" tx_hash tx_index n1 n2]
  by (simp add: verify_merkle_proof_fst)

text \<open>
  C1. Round trip: for a non-empty list of leaf hashes and an index \<open>0 \<le> i < length\<close>,
  \<open>build_merkle_tree_with_proof\<close> returns a root and a list of siblings, and
  \<open>verify_merkle_proof\<close> accepts them for the leaf at \<open>i\<close>.
\<close>

theorem merkle_proof_round_trip:
  assumes "tx_hashes \<noteq> []" and "0 \<le> i" and "i < int (length tx_hashes)"
  shows "\<exists>root siblings.
           build_merkle_tree_with_proof tx_hashes i = Inr (root, siblings) \<and>
           verify_merkle_proof (tx_hashes ! nat i) siblings root i (int (length tx_hashes))"
  using build_merkle_tree_with_proof_returns [OF assms]
  by (auto simp: verify_merkle_proof_fst)

theorem merkle_proof_round_trip_witness:
  "test_hashes \<noteq> [] \<and> (0::int) \<le> 4 \<and> 4 < int (length test_hashes) \<and>
   (\<exists>root siblings.
      build_merkle_tree_with_proof test_hashes 4 = Inr (root, siblings) \<and>
      verify_merkle_proof (test_hashes ! nat 4) siblings root 4 (int (length test_hashes)))"
proof -
  have a: "test_hashes \<noteq> []" and b: "(0::int) \<le> 4" and c: "4 < int (length test_hashes)"
    by (simp_all add: test_hashes_def)
  show ?thesis
    using a b c merkle_proof_round_trip [OF a b c] by blast
qed

text \<open>
  C10. The two builders agree: for a non-empty list of leaf hashes and an index
  \<open>0 \<le> i < length\<close>, the root that \<open>build_merkle_tree_with_proof\<close> returns is the root
  that \<open>build_merkle_tree\<close> returns for the same leaves.
\<close>

theorem merkle_builders_agree:
  assumes "tx_hashes \<noteq> []" and "0 \<le> i" and "i < int (length tx_hashes)"
  shows "\<exists>root siblings.
           build_merkle_tree_with_proof tx_hashes i = Inr (root, siblings) \<and>
           build_merkle_tree tx_hashes = Inr root"
  using build_merkle_tree_with_proof_returns [OF assms] by blast

theorem merkle_builders_agree_witness:
  "test_hashes \<noteq> [] \<and> (0::int) \<le> 2 \<and> 2 < int (length test_hashes) \<and>
   (\<exists>root siblings.
      build_merkle_tree_with_proof test_hashes 2 = Inr (root, siblings) \<and>
      build_merkle_tree test_hashes = Inr root)"
proof -
  have a: "test_hashes \<noteq> []" and b: "(0::int) \<le> 2" and c: "2 < int (length test_hashes)"
    by (simp_all add: test_hashes_def)
  show ?thesis
    using a b c merkle_builders_agree [OF a b c] by blast
qed

text \<open>
  C7. \<open>build_merkle_tree_with_proof\<close> is to fail with \<open>InvalidIndex\<close> exactly when the
  list is empty or the index is out of range. The guard tests \<open>tx_index \<ge> len(tx_hashes)\<close>
  only: a negative index passes it, no pair of any level matches it, and the call returns
  the root with an empty proof. Here it is run on the first two test hashes with index -1.
\<close>

theorem build_merkle_tree_with_proof_negative_index:
  "build_merkle_tree_with_proof (take 2 test_hashes) (- 1) =
     Inr (hash_pair (test_hashes ! 0) (test_hashes ! 1), [])"
  by (simp add: build_merkle_tree_with_proof_def test_hashes_def proof_loop.simps
      add_sibling_def first_def)

section \<open>Properties of the miner\<close>

lemma dict_get_dict_set:
  "dict_get (dict_set d k v) k' = (if k' = k then Inr v else dict_get d k')"
  by (induction d k v rule: dict_set.induct) (auto simp: dict_get_def)

lemma startswith_leading_zeros:
  assumes "startswith block_hash (''0x'' @ replicate n CHR ''0'')"
  shows "take 2 block_hash = ''0x'' \<and>
         n \<le> length (takeWhile (\<lambda>c. c = CHR ''0'') (drop 2 block_hash))"
proof -
  from assms have t: "take (2 + n) block_hash = ''0x'' @ replicate n CHR ''0''"
    by (simp add: startswith_def)
  have "block_hash = take (2 + n) block_hash @ drop (2 + n) block_hash"
    by simp
  with t have h: "block_hash = ''0x'' @ replicate n CHR ''0'' @ drop (2 + n) block_hash"
    by simp
  have "takeWhile (\<lambda>c. c = CHR ''0'') (replicate n CHR ''0'' @ drop (2 + n) block_hash) =
        replicate n CHR ''0'' @ takeWhile (\<lambda>c. c = CHR ''0'') (drop (2 + n) block_hash)"
    by (rule takeWhile_append2) simp
  then have "n \<le> length (takeWhile (\<lambda>c. c = CHR ''0'') (replicate n CHR ''0'' @ drop (2 + n) block_hash))"
    by simp
  moreover have "drop 2 block_hash = replicate n CHR ''0'' @ drop (2 + n) block_hash"
    by (subst h) simp
  moreover have "take 2 block_hash = ''0x''"
    by (subst h) simp
  ultimately show ?thesis by simp
qed

lemma mine_loop_result:
  assumes "mine_loop header required_prefix nonce = Some (Inr mined)"
  shows "\<exists>block_hash.
           dict_get mined ''hash'' = Inr (PStr block_hash) \<and>
           hash_block_header mined = Inr block_hash \<and>
           startswith block_hash required_prefix \<and>
           dict_get mined ''difficulty'' = dict_get header ''difficulty''"
proof -
  have "\<forall>mined. y = Inr mined \<longrightarrow>
          (\<exists>block_hash.
             dict_get mined ''hash'' = Inr (PStr block_hash) \<and>
             hash_block_header mined = Inr block_hash \<and>
             startswith block_hash required_prefix \<and>
             dict_get mined ''difficulty'' = dict_get header ''difficulty'')"
    if "mine_loop header required_prefix nonce = Some y" for y
  proof (rule mine_loop.raw_induct
      [where P = "\<lambda>header required_prefix nonce y. \<forall>mined. y = Inr mined \<longrightarrow>
          (\<exists>block_hash.
             dict_get mined ''hash'' = Inr (PStr block_hash) \<and>
             hash_block_header mined = Inr block_hash \<and>
             startswith block_hash required_prefix \<and>
             dict_get mined ''difficulty'' = dict_get header ''difficulty'')", OF _ that])
    fix loop :: "pydict \<Rightarrow> string \<Rightarrow> int \<Rightarrow> (error + pydict) option"
      and header required_prefix nonce y
    assume IH: "\<And>header required_prefix nonce y. loop header required_prefix nonce = Some y \<Longrightarrow>
        \<forall>mined. y = Inr mined \<longrightarrow>
          (\<exists>block_hash.
             dict_get mined ''hash'' = Inr (PStr block_hash) \<and>
             hash_block_header mined = Inr block_hash \<and>
             startswith block_hash required_prefix \<and>
             dict_get mined ''difficulty'' = dict_get header ''difficulty'')"
    assume step: "(let header1 = dict_set header ''nonce'' (PInt nonce)
      in case hash_block_header header1 of
           Inl e \<Rightarrow> Some (Inl e)
         | Inr block_hash \<Rightarrow>
             if startswith block_hash required_prefix then
               (let header2 = dict_set header1 ''hash'' (PStr block_hash)
                in case dict_get header2 ''height'' of
                     Inl e \<Rightarrow> Some (Inl e)
                   | Inr height \<Rightarrow> Some (Inr header2))
             else if (nonce + 1) mod 10000 = 0 then
               (case dict_get header1 ''height'' of
                  Inl e \<Rightarrow> Some (Inl e)
                | Inr height \<Rightarrow> loop header1 required_prefix (nonce + 1))
             else loop header1 required_prefix (nonce + 1)) = Some y"
    let ?h1 = "dict_set header ''nonce'' (PInt nonce)"
    have keep: "dict_get ?h1 ''difficulty'' = dict_get header ''difficulty''"
      by (simp add: dict_get_dict_set)
    show "\<forall>mined. y = Inr mined \<longrightarrow>
          (\<exists>block_hash.
             dict_get mined ''hash'' = Inr (PStr block_hash) \<and>
             hash_block_header mined = Inr block_hash \<and>
             startswith block_hash required_prefix \<and>
             dict_get mined ''difficulty'' = dict_get header ''difficulty'')"
    proof (cases "hash_block_header ?h1")
      case (Inl e)
      with step show ?thesis by (auto simp: Let_def)
    next
      case (Inr block_hash)
      show ?thesis
      proof (cases "startswith block_hash required_prefix")
        case True
        with step Inr show ?thesis
          by (auto simp: Let_def dict_get_dict_set hash_block_header_dict_set_hash
              split: sum.splits)
      next
        case False
        with step Inr have "loop ?h1 required_prefix (nonce + 1) = Some y \<or> (\<exists>e. y = Inl e)"
          by (auto simp: Let_def split: sum.splits if_splits)
        then show ?thesis
          using IH [of ?h1 required_prefix "nonce + 1" y] keep by auto
      qed
    qed
  qed
  with assms show ?thesis by blast
qed

lemma hash_block2_nonce0:
  "hash_block_header block2_header =
     Inr ''0xc5c2c58607402ec881a9a23490bb36c732c4de1fd40db6230f019da8f80576c8''"
  by code_simp

lemma hash_block2_nonce1:
  "hash_block_header (dict_set block2_header ''nonce'' (PInt 1)) =
     Inr ''0x00d7d626b729735fbe6089f934be486b2dcb2b57747a5ab921cd9f68fb734488''"
  by code_simp

lemma mine_block2: "mine_block block2_header = Some (Inr block2_mined)"
proof -
  have d: "dict_get block2_header ''difficulty'' = Inr (PInt 1)"
    by (simp add: block2_header_def dict_get_def)
  have n0: "dict_set block2_header ''nonce'' (PInt 0) = block2_header"
    by (simp add: block2_header_def)
  have m: "dict_set (dict_set block2_header ''nonce'' (PInt 1)) ''hash''
             (PStr ''0x00d7d626b729735fbe6089f934be486b2dcb2b57747a5ab921cd9f68fb734488'')
           = block2_mined"
    by (simp add: block2_header_def block2_mined_def)
  have h: "dict_get block2_mined ''height'' = Inr (PInt 2)"
    by (simp add: block2_mined_def dict_get_def)
  have "mine_loop block2_header ''0x0'' 0 = mine_loop block2_header ''0x0'' 1"
    by (subst mine_loop.simps) (simp add: n0 hash_block2_nonce0 startswith_def)
  also have "\<dots> = Some (Inr block2_mined)"
    by (subst mine_loop.simps) (simp add: hash_block2_nonce1 startswith_def m h)
  finally show ?thesis
    by (simp add: mine_block_def d)
qed

text \<open>
  C3, as the code has it. Whenever \<open>mine_block\<close> returns a header, that header has the
  \<open>difficulty\<close> of the input, an integer, and a \<open>hash\<close> field that is the hash of the
  returned header, starts with \<open>0x\<close> and has at least \<open>difficulty\<close> zero characters at the
  start of its hex body.
\<close>

theorem mine_block_leading_zeros:
  assumes "mine_block header = Some (Inr mined)"
  shows "\<exists>difficulty block_hash.
           dict_get header ''difficulty'' = Inr (PInt difficulty) \<and>
           dict_get mined ''difficulty'' = Inr (PInt difficulty) \<and>
           dict_get mined ''hash'' = Inr (PStr block_hash) \<and>
           hash_block_header mined = Inr block_hash \<and>
           take 2 block_hash = ''0x'' \<and>
           nat difficulty \<le> length (takeWhile (\<lambda>c. c = CHR ''0'') (drop 2 block_hash))"
proof -
  from assms obtain difficulty where
    d: "dict_get header ''difficulty'' = Inr (PInt difficulty)" and
    l: "mine_loop header (''0x'' @ replicate (nat difficulty) CHR ''0'') 0 = Some (Inr mined)"
    by (auto simp: mine_block_def split: sum.splits pyval.splits)
  from mine_loop_result [OF l] obtain block_hash where
    h: "dict_get mined ''hash'' = Inr (PStr block_hash)" and
    r: "hash_block_header mined = Inr block_hash" and
    s: "startswith block_hash (''0x'' @ replicate (nat difficulty) CHR ''0'')" and
    k: "dict_get mined ''difficulty'' = dict_get header ''difficulty''"
    by blast
  from startswith_leading_zeros [OF s] d h r k show ?thesis
    by simp
qed

theorem mine_block_leading_zeros_witness:
  "mine_block block2_header = Some (Inr block2_mined) \<and>
   (\<exists>difficulty block_hash.
      dict_get block2_header ''difficulty'' = Inr (PInt difficulty) \<and>
      dict_get block2_mined ''difficulty'' = Inr (PInt difficulty) \<and>
      dict_get block2_mined ''hash'' = Inr (PStr block_hash) \<and>
      hash_block_header block2_mined = Inr block_hash \<and>
      take 2 block_hash = ''0x'' \<and>
      nat difficulty \<le> length (takeWhile (\<lambda>c. c = CHR ''0'') (drop 2 block_hash)))"
  using mine_block2 mine_block_leading_zeros [OF mine_block2] by blast

text \<open>
  The claim as stated, with exactly \<open>difficulty\<close> zero characters, fails on the third
  block of the chain: its difficulty is 1, the search stops at nonce 1, and the hex body
  of the hash starts with two zero characters.
\<close>

theorem mine_block_two_leading_zeros:
  "mine_block block2_header = Some (Inr block2_mined) \<and>
   dict_get block2_mined ''difficulty'' = Inr (PInt 1) \<and>
   dict_get block2_mined ''hash'' = Inr (PStr ''0x00d7d626b729735fbe6089f934be486b2dcb2b57747a5ab921cd9f68fb734488'') \<and>
   length (takeWhile (\<lambda>c. c = CHR ''0'') (drop 2 ''0x00d7d626b729735fbe6089f934be486b2dcb2b57747a5ab921cd9f68fb734488'')) = 2"
  using mine_block2 by (simp add: block2_mined_def dict_get_def)

end
